theory Spec2Isabelle
  imports Main "HOL-Library.Word" "HOL-Library.FSet" "HOL-Library.Finite_Map"
begin

section \<open>The Citizen registry of daf\_base\<close>

text \<open>
  A shallow embedding of \<^verbatim>\<open>src/src/Citizen.cc\<close> and
  \<^verbatim>\<open>src/include/lsst/daf/base/Citizen.h\<close>.

  Conventions of the embedding:
  \<^item> a \<^verbatim>\<open>Citizen const*\<close> is an address (\<open>addr\<close>); the Citizen subobjects that are
    alive are the domain of the \<open>memory\<close> component of the state;
  \<^item> \<^verbatim>\<open>memId\<close> is \<^verbatim>\<open>unsigned long\<close>, a 64-bit word whose \<open>+\<close> wraps;
    \<^verbatim>\<open>int _sentinel\<close> is a 32-bit word, only ever compared for equality;
  \<^item> the two \<^verbatim>\<open>std::map\<close> tables are finite maps; iteration visits the keys in
    ascending order (\<open>sorted_list_of_fset\<close>);
  \<^item> the static members and the two thread-private variables are the fields of a
    \<open>state\<close> record that every operation takes and returns; the calling thread
    (\<^verbatim>\<open>pthread_self()\<close>) is an explicit argument;
  \<^item> a callback is a function from its argument to either the returned \<^verbatim>\<open>memId\<close> or
    a thrown exception; callbacks do not touch the registry themselves. The state
    carries a log \<open>calls\<close> of the callback invocations, in order;
  \<^item> every operation runs as one step: the reader/writer lock is taken to succeed
    and is not part of the state;
  \<^item> a leading underscore of a C++ name is dropped (\<^verbatim>\<open>_addCitizen\<close> is
    \<open>addCitizen\<close>); the private member \<^verbatim>\<open>_hasBeenCorrupted\<close> is
    \<open>hasBeenCorrupted_obj\<close>.
\<close>

subsection \<open>Data\<close>

type_synonym memId = "64 word"
type_synonym addr = nat
type_synonym pthread_t = nat
type_synonym CitizenInfo = "memId \<times> pthread_t"
type_synonym table = "(addr, CitizenInfo) fmap"

record Citizen =
  sentinel :: "32 word"
  CitizenId :: memId
  typeName :: string

definition magicSentinel :: "32 word" where
  "magicSentinel = 0xdeadbeef"

definition deadSentinel :: "32 word" where
  "deadSentinel = 0x0000dead"

text \<open>What a callback does: return a \<^verbatim>\<open>memId\<close>, or throw.\<close>

datatype hook_result = Return memId | Throw

text \<open>
  How an operation ends: it returns a value, an exception leaves it, or its behaviour
  is undefined in C++ (it dereferences a pointer to no live Citizen, or a signed
  counter overflows).
\<close>

datatype 'a outcome = Returned 'a | Threw | Invalid

datatype call =
    is_NewCall: NewCall memId
  | is_DeleteCall: DeleteCall addr
  | is_CorruptionCall: CorruptionCall addr

text \<open>
  \<^verbatim>\<open>ThreadPrivate<T>\<close>: one value per thread, created from \<^verbatim>\<open>_init\<close> by the
  first \<^verbatim>\<open>getRef\<close> of that thread.
\<close>

record 'a ThreadPrivate =
  tp_init :: 'a
  tp_key :: "(pthread_t, 'a) fmap"

record state =
  memory :: "(addr, Citizen) fmap"
  activeCitizens :: table
  persistentCitizens :: table
  newId :: memId
  deleteId :: memId
  newCallback :: "memId \<Rightarrow> hook_result"
  deleteCallback :: "addr \<Rightarrow> Citizen \<Rightarrow> hook_result"
  corruptionCallback :: "addr \<Rightarrow> Citizen \<Rightarrow> hook_result"
  perThreadId :: "memId ThreadPrivate"
  perThreadPersistFlag :: "bool ThreadPrivate"
  calls :: "call list"

subsection \<open>Thread-private values\<close>

definition getRef :: "'a ThreadPrivate \<Rightarrow> pthread_t \<Rightarrow> 'a \<times> 'a ThreadPrivate" where
  "getRef tp t =
     (case fmlookup (tp_key tp) t of
        None \<Rightarrow> (tp_init tp, tp\<lparr>tp_key := fmupd t (tp_init tp) (tp_key tp)\<rparr>)
      | Some d \<Rightarrow> (d, tp))"

text \<open>Assignment through the reference that \<open>getRef\<close> returned.\<close>

definition setRef :: "'a ThreadPrivate \<Rightarrow> pthread_t \<Rightarrow> 'a \<Rightarrow> 'a ThreadPrivate" where
  "setRef tp t v = tp\<lparr>tp_key := fmupd t v (tp_key tp)\<rparr>"

definition nextMemId :: "pthread_t \<Rightarrow> state \<Rightarrow> memId \<times> state" where
  "nextMemId t s =
     (let (d, tp) = getRef (perThreadId s) t in (d, s\<lparr>perThreadId := tp\<rparr>))"

definition getNextMemId :: "pthread_t \<Rightarrow> state \<Rightarrow> memId \<times> state" where
  "getNextMemId t s = nextMemId t s"

definition nextMemIdAndIncrement :: "pthread_t \<Rightarrow> state \<Rightarrow> memId \<times> state" where
  "nextMemIdAndIncrement t s =
     (let (d, tp) = getRef (perThreadId s) t
      in (d, s\<lparr>perThreadId := setRef tp t (d + 1)\<rparr>))"

definition shouldPersistCitizens :: "pthread_t \<Rightarrow> state \<Rightarrow> bool \<times> state" where
  "shouldPersistCitizens t s =
     (let (b, tp) = getRef (perThreadPersistFlag s) t in (b, s\<lparr>perThreadPersistFlag := tp\<rparr>))"

definition PersistentCitizenScope_ctor :: "pthread_t \<Rightarrow> state \<Rightarrow> state" where
  "PersistentCitizenScope_ctor t s =
     (let (b, tp) = getRef (perThreadPersistFlag s) t
      in s\<lparr>perThreadPersistFlag := setRef tp t True\<rparr>)"

definition PersistentCitizenScope_dtor :: "pthread_t \<Rightarrow> state \<Rightarrow> state" where
  "PersistentCitizenScope_dtor t s =
     (let (b, tp) = getRef (perThreadPersistFlag s) t
      in s\<lparr>perThreadPersistFlag := setRef tp t False\<rparr>)"

subsection \<open>Callbacks\<close>

definition defaultNewCallback :: "memId \<Rightarrow> hook_result" where
  "defaultNewCallback cid = Return 0"

definition defaultDeleteCallback :: "addr \<Rightarrow> Citizen \<Rightarrow> hook_result" where
  "defaultDeleteCallback ptr c = Return 0"

definition defaultCorruptionCallback :: "addr \<Rightarrow> Citizen \<Rightarrow> hook_result" where
  "defaultCorruptionCallback ptr c = Throw"

definition call_newCallback :: "memId \<Rightarrow> state \<Rightarrow> memId outcome \<times> state" where
  "call_newCallback cid s =
     (case newCallback s cid of
        Return d \<Rightarrow> (Returned d, s\<lparr>calls := calls s @ [NewCall cid]\<rparr>)
      | Throw \<Rightarrow> (Threw, s\<lparr>calls := calls s @ [NewCall cid]\<rparr>))"

definition call_deleteCallback :: "addr \<Rightarrow> Citizen \<Rightarrow> state \<Rightarrow> memId outcome \<times> state" where
  "call_deleteCallback ptr c s =
     (case deleteCallback s ptr c of
        Return d \<Rightarrow> (Returned d, s\<lparr>calls := calls s @ [DeleteCall ptr]\<rparr>)
      | Throw \<Rightarrow> (Threw, s\<lparr>calls := calls s @ [DeleteCall ptr]\<rparr>))"

definition call_corruptionCallback :: "addr \<Rightarrow> Citizen \<Rightarrow> state \<Rightarrow> memId outcome \<times> state" where
  "call_corruptionCallback ptr c s =
     (case corruptionCallback s ptr c of
        Return d \<Rightarrow> (Returned d, s\<lparr>calls := calls s @ [CorruptionCall ptr]\<rparr>)
      | Throw \<Rightarrow> (Threw, s\<lparr>calls := calls s @ [CorruptionCall ptr]\<rparr>))"

definition setNewCallbackId :: "memId \<Rightarrow> state \<Rightarrow> memId \<times> state" where
  "setNewCallbackId i s = (newId s, s\<lparr>newId := i\<rparr>)"

definition setDeleteCallbackId :: "memId \<Rightarrow> state \<Rightarrow> memId \<times> state" where
  "setDeleteCallbackId i s = (deleteId s, s\<lparr>deleteId := i\<rparr>)"

definition setNewCallback ::
  "(memId \<Rightarrow> hook_result) \<Rightarrow> state \<Rightarrow> (memId \<Rightarrow> hook_result) \<times> state" where
  "setNewCallback func s = (newCallback s, s\<lparr>newCallback := func\<rparr>)"

definition setDeleteCallback ::
  "(addr \<Rightarrow> Citizen \<Rightarrow> hook_result) \<Rightarrow> state \<Rightarrow> (addr \<Rightarrow> Citizen \<Rightarrow> hook_result) \<times> state" where
  "setDeleteCallback func s = (deleteCallback s, s\<lparr>deleteCallback := func\<rparr>)"

definition setCorruptionCallback ::
  "(addr \<Rightarrow> Citizen \<Rightarrow> hook_result) \<Rightarrow> state \<Rightarrow> (addr \<Rightarrow> Citizen \<Rightarrow> hook_result) \<times> state" where
  "setCorruptionCallback func s = (corruptionCallback s, s\<lparr>corruptionCallback := func\<rparr>)"

subsection \<open>The static initial values\<close>

definition initial :: state where
  "initial =
     \<lparr>memory = fmempty, activeCitizens = fmempty, persistentCitizens = fmempty,
      newId = 0, deleteId = 0,
      newCallback = defaultNewCallback, deleteCallback = defaultDeleteCallback,
      corruptionCallback = defaultCorruptionCallback,
      perThreadId = \<lparr>tp_init = 1, tp_key = fmempty\<rparr>,
      perThreadPersistFlag = \<lparr>tp_init = False, tp_key = fmempty\<rparr>,
      calls = []\<rparr>"

subsection \<open>The std::map operations the code uses\<close>

text \<open>\<^verbatim>\<open>table.erase(key)\<close>: the number of entries removed, and the table.\<close>

definition erase :: "table \<Rightarrow> addr \<Rightarrow> nat \<times> table" where
  "erase tbl k = (if k |\<in>| fmdom tbl then (1, fmdrop k tbl) else (0, tbl))"

text \<open>
  \<^verbatim>\<open>table[key]\<close> read as a value: a missing key is first inserted with a
  value-initialised \<^verbatim>\<open>CitizenInfo\<close>, the pair \<open>(0, 0)\<close>.
\<close>

definition index :: "table \<Rightarrow> addr \<Rightarrow> CitizenInfo \<times> table" where
  "index tbl k =
     (case fmlookup tbl k of
        None \<Rightarrow> ((0, 0), fmupd k (0, 0) tbl)
      | Some v \<Rightarrow> (v, tbl))"

subsection \<open>Construction\<close>

fun andThen ::
  "'a outcome \<times> state \<Rightarrow> ('a \<Rightarrow> state \<Rightarrow> 'b outcome \<times> state) \<Rightarrow> 'b outcome \<times> state" where
  "andThen (Returned x, s) f = f x s"
| "andThen (Threw, s) f = (Threw, s)"
| "andThen (Invalid, s) f = (Invalid, s)"

definition addCitizen :: "pthread_t \<Rightarrow> addr \<Rightarrow> state \<Rightarrow> memId outcome \<times> state" where
  "addCitizen t c s =
     (let (cid, s1) = nextMemIdAndIncrement t s;
          (persist, s2) = shouldPersistCitizens t s1;
          s3 = (if persist
                then s2\<lparr>persistentCitizens := fmupd c (cid, t) (persistentCitizens s2)\<rparr>
                else s2\<lparr>activeCitizens := fmupd c (cid, t) (activeCitizens s2)\<rparr>)
      in if cid = newId s3
         then andThen (call_newCallback cid s3)
                (\<lambda>d s4. (Returned cid, s4\<lparr>newId := newId s4 + d\<rparr>))
         else (Returned cid, s3))"

text \<open>
  \<^verbatim>\<open>Citizen(std::type_info const&)\<close>. The members are initialised in the order
  sentinel, ID, type name; the object is in \<open>memory\<close> once all three are. When
  \<open>addCitizen\<close> throws, no object comes to life.
\<close>

definition Citizen_ctor :: "pthread_t \<Rightarrow> addr \<Rightarrow> string \<Rightarrow> state \<Rightarrow> unit outcome \<times> state" where
  "Citizen_ctor t this type s =
     andThen (addCitizen t this s)
       (\<lambda>cid s1. (Returned (),
          s1\<lparr>memory := fmupd this
                \<lparr>sentinel = magicSentinel, CitizenId = cid, typeName = type\<rparr> (memory s1)\<rparr>))"

text \<open>\<^verbatim>\<open>Citizen(Citizen const&)\<close>: a new ID, the type name of the source.\<close>

definition Citizen_copy_ctor :: "pthread_t \<Rightarrow> addr \<Rightarrow> addr \<Rightarrow> state \<Rightarrow> unit outcome \<times> state" where
  "Citizen_copy_ctor t this citizen s =
     (case fmlookup (memory s) citizen of
        None \<Rightarrow> (Invalid, s)
      | Some src \<Rightarrow>
          andThen (addCitizen t this s)
            (\<lambda>cid s1. (Returned (),
               s1\<lparr>memory := fmupd this
                     \<lparr>sentinel = magicSentinel, CitizenId = cid, typeName = typeName src\<rparr>
                     (memory s1)\<rparr>)))"

text \<open>\<^verbatim>\<open>Citizen & operator=(Citizen const &) { return *this; }\<close>\<close>

definition Citizen_assign :: "addr \<Rightarrow> addr \<Rightarrow> state \<Rightarrow> addr \<times> state" where
  "Citizen_assign this rhs s = (this, s)"

definition getId :: "addr \<Rightarrow> state \<Rightarrow> memId outcome" where
  "getId this s =
     (case fmlookup (memory s) this of None \<Rightarrow> Invalid | Some c \<Rightarrow> Returned (CitizenId c))"

subsection \<open>Corruption check and destruction\<close>

definition hasBeenCorrupted_obj :: "addr \<Rightarrow> state \<Rightarrow> bool outcome \<times> state" where
  "hasBeenCorrupted_obj this s =
     (case fmlookup (memory s) this of
        None \<Rightarrow> (Invalid, s)
      | Some c \<Rightarrow>
          if sentinel c = magicSentinel then (Returned False, s)
          else andThen (call_corruptionCallback this c s) (\<lambda>d s1. (Returned True, s1)))"

text \<open>The first block of the destructor.\<close>

definition dtor_delete_hook :: "addr \<Rightarrow> Citizen \<Rightarrow> state \<Rightarrow> unit outcome \<times> state" where
  "dtor_delete_hook this c s =
     (if CitizenId c = deleteId s
      then andThen (call_deleteCallback this c s)
             (\<lambda>d s1. (Returned (), s1\<lparr>deleteId := deleteId s1 + d\<rparr>))
      else (Returned (), s))"

text \<open>
  The second block: \<^verbatim>\<open>nActive > 1 || (nActive == 0 && _persistentCitizens.erase(this) != 1)\<close>.
  The persistent table is only touched when the right operand is evaluated.
\<close>

definition dtor_erase :: "addr \<Rightarrow> state \<Rightarrow> bool \<times> state" where
  "dtor_erase this s =
     (let (nActive, act) = erase (activeCitizens s) this;
          s1 = s\<lparr>activeCitizens := act\<rparr>
      in if nActive > 1 then (True, s1)
         else if nActive = 0
         then (let (nPersistent, per) = erase (persistentCitizens s1) this
               in (nPersistent \<noteq> 1, s1\<lparr>persistentCitizens := per\<rparr>))
         else (False, s1))"

text \<open>Everything after the first block.\<close>

definition dtor_rest :: "addr \<Rightarrow> state \<Rightarrow> unit outcome \<times> state" where
  "dtor_rest this s =
     andThen (hasBeenCorrupted_obj this s)
       (\<lambda>b s1.
          case fmlookup (memory s1) this of
            None \<Rightarrow> (Invalid, s1)
          | Some c \<Rightarrow>
             (let dead = c\<lparr>sentinel := deadSentinel\<rparr>;
                  s2 = s1\<lparr>memory := fmupd this dead (memory s1)\<rparr>;
                  (corrupt, s3) = dtor_erase this s2
              in if corrupt
                 then andThen (call_corruptionCallback this dead s3) (\<lambda>d s4. (Returned (), s4))
                 else (Returned (), s3)))"

text \<open>
  \<^verbatim>\<open>~Citizen()\<close>. However the destructor is left, the object's lifetime is over:
  it is no longer in \<open>memory\<close>.
\<close>

definition end_lifetime :: "addr \<Rightarrow> 'a outcome \<times> state \<Rightarrow> 'a outcome \<times> state" where
  "end_lifetime this rs = (fst rs, (snd rs)\<lparr>memory := fmdrop this (memory (snd rs))\<rparr>)"

definition Citizen_dtor :: "addr \<Rightarrow> state \<Rightarrow> unit outcome \<times> state" where
  "Citizen_dtor this s =
     (case fmlookup (memory s) this of
        None \<Rightarrow> (Invalid, s)
      | Some c \<Rightarrow>
          end_lifetime this
            (andThen (dtor_delete_hook this c s) (\<lambda>u s1. dtor_rest this s1)))"

subsection \<open>markPersistent\<close>

text \<open>
  \<^verbatim>\<open>_persistentCitizens[this] = _activeCitizens[this]; _activeCitizens.erase(this);\<close>
\<close>

definition markPersistent :: "addr \<Rightarrow> state \<Rightarrow> state" where
  "markPersistent this s =
     (let (v, act1) = index (activeCitizens s) this;
          per = fmupd this v (persistentCitizens s);
          (n, act2) = erase act1 this
      in s\<lparr>activeCitizens := act2, persistentCitizens := per\<rparr>)"

subsection \<open>Census\<close>

text \<open>
  The loop of \<open>countCitizens\<close>. The counter is \<^verbatim>\<open>int n\<close>, 32 bits wide:
  \<^verbatim>\<open>n++\<close> at \<open>INT_MAX\<close> is a signed overflow. The result is converted to
  \<^verbatim>\<open>std::size_t\<close> on return.
\<close>

definition INT_MAX :: int where
  "INT_MAX = 2 ^ 31 - 1"

fun count_loop :: "(addr, Citizen) fmap \<Rightarrow> memId \<Rightarrow> addr list \<Rightarrow> int \<Rightarrow> int outcome" where
  "count_loop mem startingMemId [] n = Returned n"
| "count_loop mem startingMemId (cur # rest) n =
     (case fmlookup mem cur of
        None \<Rightarrow> Invalid
      | Some c \<Rightarrow>
          if CitizenId c \<ge> startingMemId
          then (if n = INT_MAX then Invalid else count_loop mem startingMemId rest (n + 1))
          else count_loop mem startingMemId rest n)"

definition countCitizens :: "memId \<Rightarrow> state \<Rightarrow> nat outcome" where
  "countCitizens startingMemId s =
     (if startingMemId = 0 then Returned (fcard (fmdom (activeCitizens s)))
      else case count_loop (memory s) startingMemId
                  (sorted_list_of_fset (fmdom (activeCitizens s))) 0 of
             Returned n \<Rightarrow> Returned (nat n)
           | Threw \<Rightarrow> Threw
           | Invalid \<Rightarrow> Invalid)"

fun census_loop ::
  "(addr, Citizen) fmap \<Rightarrow> memId \<Rightarrow> addr list \<Rightarrow> addr list \<Rightarrow> addr list outcome" where
  "census_loop mem startingMemId [] vec = Returned vec"
| "census_loop mem startingMemId (cur # rest) vec =
     (case fmlookup mem cur of
        None \<Rightarrow> Invalid
      | Some c \<Rightarrow>
          census_loop mem startingMemId rest
            (if CitizenId c \<ge> startingMemId then vec @ [cur] else vec))"

text \<open>
  The key that \<^verbatim>\<open>cmpId\<close> compares. Every pointer in the vector was dereferenced by
  the loop, so the \<open>None\<close> case is never taken by \<open>census\<close>.
\<close>

definition idOf :: "(addr, Citizen) fmap \<Rightarrow> addr \<Rightarrow> memId" where
  "idOf mem a = (case fmlookup mem a of None \<Rightarrow> 0 | Some c \<Rightarrow> CitizenId c)"

text \<open>
  \<^verbatim>\<open>census(memId)\<close>. \<^verbatim>\<open>std::sort\<close> is modelled by the insertion sort
  \<open>sort_key\<close>; \<^verbatim>\<open>std::sort\<close> may order citizens of equal ID differently.
\<close>

definition census :: "memId \<Rightarrow> state \<Rightarrow> addr list outcome" where
  "census startingMemId s =
     (case census_loop (memory s) startingMemId
             (sorted_list_of_fset (fmdom (activeCitizens s))) [] of
        Returned vec \<Rightarrow> Returned (sort_key (idOf (memory s)) vec)
      | Threw \<Rightarrow> Threw
      | Invalid \<Rightarrow> Invalid)"

subsection \<open>Sequences of constructions, the registry invariant, example states\<close>

text \<open>
  Constructing the objects of a list one after the other on thread \<open>t\<close>, reading
  each new object's \<^verbatim>\<open>getId()\<close>.
\<close>

fun construct_seq ::
  "pthread_t \<Rightarrow> (addr \<times> string) list \<Rightarrow> state \<Rightarrow> memId list outcome \<times> state" where
  "construct_seq t [] s = (Returned [], s)"
| "construct_seq t (obj # rest) s =
     (case Citizen_ctor t (fst obj) (snd obj) s of
        (Returned u, s1) \<Rightarrow>
          (case getId (fst obj) s1 of
             Returned cid \<Rightarrow>
               (case construct_seq t rest s1 of
                  (Returned ids, s2) \<Rightarrow> (Returned (cid # ids), s2)
                | (Threw, s2) \<Rightarrow> (Threw, s2)
                | (Invalid, s2) \<Rightarrow> (Invalid, s2))
           | Threw \<Rightarrow> (Threw, s1)
           | Invalid \<Rightarrow> (Invalid, s1))
      | (Threw, s1) \<Rightarrow> (Threw, s1)
      | (Invalid, s1) \<Rightarrow> (Invalid, s1))"

text \<open>
  The invariant of the data model: the live Citizens are exactly the keys of the two
  tables, and no key is in both.
\<close>

definition registry_inv :: "state \<Rightarrow> bool" where
  "registry_inv s \<longleftrightarrow>
     fmdom (activeCitizens s) |\<inter>| fmdom (persistentCitizens s) = {||} \<and>
     fmdom (activeCitizens s) |\<union>| fmdom (persistentCitizens s) = fmdom (memory s)"

text \<open>Thread 5 constructs a Citizen at address 7 inside a PersistentCitizenScope.\<close>

definition s_persistent :: state where
  "s_persistent = snd (Citizen_ctor 5 7 ''Shoe'' (PersistentCitizenScope_ctor 5 initial))"

text \<open>
  The allocate watch is set to 15 with a callback that returns 5; thread 1 has then
  constructed fourteen Citizens, so that its next ID is 15.
\<close>

definition s_armed :: state where
  "s_armed =
     snd (construct_seq 1 (map (\<lambda>i. (i, ''Shoe'')) [1..<15])
            (snd (setNewCallback (\<lambda>cid. Return 5) (snd (setNewCallbackId 15 initial)))))"

text \<open>
  Thread 1 constructs A, B and C at the addresses 10, 11 and 12; they get the IDs 1, 2
  and 3. In \<open>s_tolerant\<close> the corruption callback has been replaced by one that
  returns; in \<open>s_watch\<close> the delete watch is B's ID; in \<open>s_scribbled\<close> B's sentinel
  has been overwritten with 0, as by a write through a stray pointer; in
  \<open>s_dangling\<close> B's entry is missing from the active table.
\<close>

definition s_abc :: state where
  "s_abc = snd (construct_seq 1 [(10, ''Shoe''), (11, ''Shoe''), (12, ''MyClass'')] initial)"

definition s_tolerant :: state where
  "s_tolerant = snd (setCorruptionCallback (\<lambda>ptr c. Return 0) s_abc)"

definition s_watch :: state where
  "s_watch = snd (setDeleteCallbackId 2 s_abc)"

definition s_scribbled :: state where
  "s_scribbled =
     s_tolerant\<lparr>memory :=
       fmupd 11 \<lparr>sentinel = 0, CitizenId = 2, typeName = ''Shoe''\<rparr> (memory s_tolerant)\<rparr>"

definition s_dangling :: state where
  "s_dangling = s_tolerant\<lparr>activeCitizens := fmdrop 11 (activeCitizens s_tolerant)\<rparr>"

text \<open>
  Everything at once: B's sentinel is overwritten, B's entry is missing from the active
  table, and the delete watch is B's ID.
\<close>

definition s_worst :: state where
  "s_worst =
     snd (setDeleteCallbackId 2
            (s_scribbled\<lparr>activeCitizens := fmdrop 11 (activeCitizens s_scribbled)\<rparr>))"

text \<open>
  Thread 1 constructs three Citizens at the addresses 12, 11 and 10, in this order: the
  order of the IDs is the reverse of the order of the addresses.
\<close>

definition s_rev :: state where
  "s_rev = snd (construct_seq 1 [(12, ''Shoe''), (11, ''Shoe''), (10, ''MyClass'')] initial)"

text \<open>
  The allocate watch is the first ID of every thread, and the allocate callback throws.
\<close>

definition s_throw :: state where
  "s_throw = snd (setNewCallback (\<lambda>cid. Throw) (snd (setNewCallbackId 1 initial)))"

text \<open>A, B and C as above, then B destroyed.\<close>

definition s_ac :: state where
  "s_ac = snd (Citizen_dtor 11 s_abc)"

subsection \<open>Basic facts\<close>

lemma getRef_getRef [simp]: "fst (getRef (snd (getRef tp t)) t') = fst (getRef tp t')"
  by (auto simp: getRef_def split: option.splits)

lemma getRef_setRef_same [simp]: "fst (getRef (setRef tp t v) t) = v"
  by (simp add: getRef_def setRef_def)

lemma getRef_setRef_other [simp]:
  "t' \<noteq> t \<Longrightarrow> fst (getRef (setRef tp t v) t') = fst (getRef tp t')"
  by (simp add: getRef_def setRef_def split: option.splits)

lemma andThen_alt:
  "andThen p f =
     (case fst p of Returned x \<Rightarrow> f x (snd p) | Threw \<Rightarrow> (Threw, snd p) | Invalid \<Rightarrow> (Invalid, snd p))"
  by (cases p; cases "fst p") auto

lemma fst_nextMemId: "fst (nextMemId t s) = fst (getRef (perThreadId s) t)"
  by (simp add: nextMemId_def split_def Let_def)

lemma fst_shouldPersistCitizens:
  "fst (shouldPersistCitizens t s) = fst (getRef (perThreadPersistFlag s) t)"
  by (simp add: shouldPersistCitizens_def split_def Let_def)

lemmas peek_simps = getNextMemId_def fst_nextMemId fst_shouldPersistCitizens

lemmas addCitizen_defs = addCitizen_def nextMemIdAndIncrement_def shouldPersistCitizens_def
  call_newCallback_def Let_def split_def

lemma addCitizen_calls:
  "calls (snd (addCitizen t c s)) =
     calls s @ (if fst (getRef (perThreadId s) t) = newId s
                then [NewCall (fst (getRef (perThreadId s) t))] else [])"
  by (simp add: addCitizen_defs split: hook_result.splits)

lemma addCitizen_result:
  "fst (addCitizen t c s) =
     (if fst (getRef (perThreadId s) t) = newId s \<and> newCallback s (newId s) = Throw then Threw
      else Returned (fst (getRef (perThreadId s) t)))"
  by (auto simp: addCitizen_defs split: hook_result.splits)

lemma addCitizen_newId:
  "newId (snd (addCitizen t c s)) =
     (if fst (getRef (perThreadId s) t) = newId s
      then (case newCallback s (newId s) of Return d \<Rightarrow> newId s + d | Throw \<Rightarrow> newId s)
      else newId s)"
  by (auto simp: addCitizen_defs split: hook_result.splits)

lemma addCitizen_next:
  "fst (getRef (perThreadId (snd (addCitizen t c s))) t') =
     (if t' = t then fst (getRef (perThreadId s) t) + 1 else fst (getRef (perThreadId s) t'))"
  by (simp add: addCitizen_defs split: hook_result.splits)

lemma addCitizen_flag:
  "fst (getRef (perThreadPersistFlag (snd (addCitizen t c s))) t') =
     fst (getRef (perThreadPersistFlag s) t')"
  by (simp add: addCitizen_defs split: hook_result.splits)

lemma addCitizen_active:
  "activeCitizens (snd (addCitizen t c s)) =
     (if fst (getRef (perThreadPersistFlag s) t) then activeCitizens s
      else fmupd c (fst (getRef (perThreadId s) t), t) (activeCitizens s))"
  by (simp add: addCitizen_defs split: hook_result.splits)

lemma addCitizen_persistent:
  "persistentCitizens (snd (addCitizen t c s)) =
     (if fst (getRef (perThreadPersistFlag s) t)
      then fmupd c (fst (getRef (perThreadId s) t), t) (persistentCitizens s)
      else persistentCitizens s)"
  by (simp add: addCitizen_defs split: hook_result.splits)

lemma addCitizen_frame:
  "memory (snd (addCitizen t c s)) = memory s"
  "newCallback (snd (addCitizen t c s)) = newCallback s"
  "deleteCallback (snd (addCitizen t c s)) = deleteCallback s"
  "corruptionCallback (snd (addCitizen t c s)) = corruptionCallback s"
  "deleteId (snd (addCitizen t c s)) = deleteId s"
  by (simp_all add: addCitizen_defs split: hook_result.splits)

lemmas addCitizen_simps = addCitizen_calls addCitizen_result addCitizen_newId addCitizen_next
  addCitizen_flag addCitizen_active addCitizen_persistent addCitizen_frame

lemma Citizen_ctor_result:
  "fst (Citizen_ctor t this ty s) =
     (if fst (getRef (perThreadId s) t) = newId s \<and> newCallback s (newId s) = Throw then Threw
      else Returned ())"
  by (simp add: Citizen_ctor_def andThen_alt addCitizen_result)

lemma Citizen_ctor_memory:
  "memory (snd (Citizen_ctor t this ty s)) =
     (if fst (Citizen_ctor t this ty s) = Returned ()
      then fmupd this
             \<lparr>sentinel = magicSentinel, CitizenId = fst (getRef (perThreadId s) t), typeName = ty\<rparr>
             (memory s)
      else memory s)"
  by (simp add: Citizen_ctor_def andThen_alt addCitizen_simps)

lemma Citizen_ctor_frame:
  "calls (snd (Citizen_ctor t this ty s)) = calls (snd (addCitizen t this s))"
  "newId (snd (Citizen_ctor t this ty s)) = newId (snd (addCitizen t this s))"
  "deleteId (snd (Citizen_ctor t this ty s)) = deleteId s"
  "activeCitizens (snd (Citizen_ctor t this ty s)) = activeCitizens (snd (addCitizen t this s))"
  "persistentCitizens (snd (Citizen_ctor t this ty s)) =
     persistentCitizens (snd (addCitizen t this s))"
  "newCallback (snd (Citizen_ctor t this ty s)) = newCallback s"
  "deleteCallback (snd (Citizen_ctor t this ty s)) = deleteCallback s"
  "corruptionCallback (snd (Citizen_ctor t this ty s)) = corruptionCallback s"
  "perThreadId (snd (Citizen_ctor t this ty s)) = perThreadId (snd (addCitizen t this s))"
  "perThreadPersistFlag (snd (Citizen_ctor t this ty s)) =
     perThreadPersistFlag (snd (addCitizen t this s))"
  by (simp_all add: Citizen_ctor_def andThen_alt addCitizen_simps split: outcome.splits)

lemmas Citizen_ctor_simps = Citizen_ctor_result Citizen_ctor_memory Citizen_ctor_frame

lemma Citizen_ctor_getId:
  "fst (Citizen_ctor t this ty s) = Returned () \<Longrightarrow>
   getId this (snd (Citizen_ctor t this ty s)) = Returned (fst (getRef (perThreadId s) t))"
  by (simp add: getId_def Citizen_ctor_memory)

lemma scope_flag:
  "fst (getRef (perThreadPersistFlag (PersistentCitizenScope_ctor t s)) t') =
     (if t' = t then True else fst (getRef (perThreadPersistFlag s) t'))"
  "fst (getRef (perThreadPersistFlag (PersistentCitizenScope_dtor t s)) t') =
     (if t' = t then False else fst (getRef (perThreadPersistFlag s) t'))"
  by (simp_all add: PersistentCitizenScope_ctor_def PersistentCitizenScope_dtor_def split_def)

lemma scope_frame:
  "activeCitizens (PersistentCitizenScope_ctor t s) = activeCitizens s"
  "persistentCitizens (PersistentCitizenScope_ctor t s) = persistentCitizens s"
  "perThreadId (PersistentCitizenScope_ctor t s) = perThreadId s"
  "activeCitizens (PersistentCitizenScope_dtor t s) = activeCitizens s"
  "persistentCitizens (PersistentCitizenScope_dtor t s) = persistentCitizens s"
  "perThreadId (PersistentCitizenScope_dtor t s) = perThreadId s"
  by (simp_all add: PersistentCitizenScope_ctor_def PersistentCitizenScope_dtor_def split_def)

lemma construct_seq_ids:
  assumes "\<forall>cid. newCallback s cid \<noteq> Throw"
  shows "fst (construct_seq t objs s) =
           Returned (map (\<lambda>i. fst (getRef (perThreadId s) t) + of_nat i) [0..<length objs])"
  using assms
proof (induction objs arbitrary: s)
  case Nil
  then show ?case by simp
next
  case (Cons obj rest)
  let ?p = "fst (getRef (perThreadId s) t)"
  let ?s1 = "snd (Citizen_ctor t (fst obj) (snd obj) s)"
  have r: "fst (Citizen_ctor t (fst obj) (snd obj) s) = Returned ()"
    using Cons.prems by (simp add: Citizen_ctor_result)
  have g: "getId (fst obj) ?s1 = Returned ?p"
    using r by (rule Citizen_ctor_getId)
  have h: "\<forall>cid. newCallback ?s1 cid \<noteq> Throw"
    using Cons.prems by (simp add: Citizen_ctor_frame)
  have n: "fst (getRef (perThreadId ?s1) t) = ?p + 1"
    by (simp add: Citizen_ctor_frame addCitizen_next)
  have ih: "fst (construct_seq t rest ?s1) =
              Returned (map (\<lambda>i. ?p + 1 + of_nat i) [0..<length rest])"
    using Cons.IH [OF h] n by simp
  have m: "map (\<lambda>i. ?p + of_nat i) [0..<length (obj # rest)] =
           ?p # map (\<lambda>i. ?p + 1 + of_nat i) [0..<length rest]"
    by (simp add: upt_rec [of 0] map_Suc_upt [symmetric] add.assoc del: upt_Suc)
  obtain u s1 where c: "Citizen_ctor t (fst obj) (snd obj) s = (u, s1)" by force
  obtain v s2 where d: "construct_seq t rest s1 = (v, s2)" by force
  show ?case
    using r g ih c d unfolding m by (simp split: prod.splits outcome.splits)
qed

lemma unat_consecutive:
  fixes p :: memId
  assumes "unat p + n \<le> 2 ^ 64"
  shows "map unat (map (\<lambda>i. p + of_nat i) [0..<n]) = [unat p..<unat p + n]"
proof -
  have "unat (p + of_nat i) = unat p + i" if "i < n" for i
  proof -
    have "i < 2 ^ 64" using that assms by simp
    then have u: "unat (of_nat i :: memId) = i" by (simp add: unat_of_nat)
    have "unat p + unat (of_nat i :: memId) < 2 ^ LENGTH(64)"
      using that assms u by simp
    then show ?thesis using u by (simp add: unat_add_lem [THEN iffD1])
  qed
  then have "map unat (map (\<lambda>i. p + of_nat i) [0..<n]) = map (\<lambda>i. i + unat p) [0..<n]"
    by (simp add: add.commute)
  also have "\<dots> = [unat p..<unat p + n]"
    by (simp add: map_add_upt add.commute)
  finally show ?thesis .
qed

lemma hasBeenCorrupted_obj_live:
  assumes "fmlookup (memory s) this = Some c"
  shows "hasBeenCorrupted_obj this s =
     (if sentinel c = magicSentinel then (Returned False, s)
      else (case corruptionCallback s this c of Return d \<Rightarrow> Returned True | Throw \<Rightarrow> Threw,
            s\<lparr>calls := calls s @ [CorruptionCall this]\<rparr>))"
  using assms
  by (simp add: hasBeenCorrupted_obj_def call_corruptionCallback_def split: hook_result.splits)

lemma dtor_delete_hook_simps:
  "fst (dtor_delete_hook this c s) =
     (if CitizenId c = deleteId s \<and> deleteCallback s this c = Throw then Threw else Returned ())"
  "calls (snd (dtor_delete_hook this c s)) =
     calls s @ (if CitizenId c = deleteId s then [DeleteCall this] else [])"
  "memory (snd (dtor_delete_hook this c s)) = memory s"
  "activeCitizens (snd (dtor_delete_hook this c s)) = activeCitizens s"
  "persistentCitizens (snd (dtor_delete_hook this c s)) = persistentCitizens s"
  "corruptionCallback (snd (dtor_delete_hook this c s)) = corruptionCallback s"
  by (simp_all add: dtor_delete_hook_def call_deleteCallback_def split: hook_result.splits)

lemma dtor_erase_eq:
  "dtor_erase this s =
     (this |\<notin>| fmdom (activeCitizens s) \<and> this |\<notin>| fmdom (persistentCitizens s),
      s\<lparr>activeCitizens := fmdrop this (activeCitizens s),
        persistentCitizens := (if this |\<in>| fmdom (activeCitizens s) then persistentCitizens s
                               else fmdrop this (persistentCitizens s))\<rparr>)"
  by (auto simp: dtor_erase_def erase_def Let_def fmdrop_idle)

lemma dtor_rest_tables:
  assumes "fmlookup (memory s) this = Some c"
    and "fst (dtor_rest this s) = Returned ()"
  shows "activeCitizens (snd (dtor_rest this s)) = fmdrop this (activeCitizens s)"
    and "persistentCitizens (snd (dtor_rest this s)) =
           (if this |\<in>| fmdom (activeCitizens s) then persistentCitizens s
            else fmdrop this (persistentCitizens s))"
    and "memory (snd (dtor_rest this s)) = fmupd this (c\<lparr>sentinel := deadSentinel\<rparr>) (memory s)"
  using assms
  by (auto simp: dtor_rest_def hasBeenCorrupted_obj_live dtor_erase_eq call_corruptionCallback_def
      Let_def split: hook_result.splits if_splits)

lemma dtor_rest_calls:
  assumes "fmlookup (memory s) this = Some c"
    and "sentinel c \<noteq> magicSentinel \<longrightarrow> corruptionCallback s this c \<noteq> Throw"
  shows "calls (snd (dtor_rest this s)) =
           calls s @ (if sentinel c \<noteq> magicSentinel then [CorruptionCall this] else []) @
             (if this |\<notin>| fmdom (activeCitizens s) \<and> this |\<notin>| fmdom (persistentCitizens s)
              then [CorruptionCall this] else [])"
  using assms
  by (auto simp: dtor_rest_def hasBeenCorrupted_obj_live dtor_erase_eq call_corruptionCallback_def
      Let_def split: hook_result.splits)

lemma dtor_rest_no_delete:
  assumes "fmlookup (memory s) this = Some c"
  shows "filter is_DeleteCall (calls (snd (dtor_rest this s))) = filter is_DeleteCall (calls s)"
  using assms
  by (auto simp: dtor_rest_def hasBeenCorrupted_obj_live dtor_erase_eq call_corruptionCallback_def
      Let_def split: hook_result.splits)

lemma end_lifetime_simps:
  "fst (end_lifetime this rs) = fst rs"
  "calls (snd (end_lifetime this rs)) = calls (snd rs)"
  "activeCitizens (snd (end_lifetime this rs)) = activeCitizens (snd rs)"
  "persistentCitizens (snd (end_lifetime this rs)) = persistentCitizens (snd rs)"
  "memory (snd (end_lifetime this rs)) = fmdrop this (memory (snd rs))"
  by (simp_all add: end_lifetime_def)

lemma Citizen_dtor_live:
  assumes "fmlookup (memory s) this = Some c"
  shows "Citizen_dtor this s =
           end_lifetime this (andThen (dtor_delete_hook this c s) (\<lambda>u. dtor_rest this))"
  using assms by (simp add: Citizen_dtor_def)

lemma Citizen_dtor_delete_calls:
  assumes "fmlookup (memory s) this = Some c"
  shows "filter is_DeleteCall (calls (snd (Citizen_dtor this s))) =
           filter is_DeleteCall (calls s) @ (if CitizenId c = deleteId s then [DeleteCall this] else [])"
proof -
  let ?r = "dtor_delete_hook this c s"
  have m: "fmlookup (memory (snd ?r)) this = Some c"
    using assms by (simp add: dtor_delete_hook_simps)
  show ?thesis
    using dtor_rest_no_delete [OF m]
    by (simp add: Citizen_dtor_live [OF assms] end_lifetime_simps andThen_alt
        dtor_delete_hook_simps split: outcome.splits)
qed

lemma Citizen_dtor_calls:
  assumes "fmlookup (memory s) this = Some c"
    and "CitizenId c = deleteId s \<longrightarrow> deleteCallback s this c \<noteq> Throw"
    and "sentinel c \<noteq> magicSentinel \<longrightarrow> corruptionCallback s this c \<noteq> Throw"
  shows "calls (snd (Citizen_dtor this s)) =
           calls s @ (if CitizenId c = deleteId s then [DeleteCall this] else []) @
             (if sentinel c \<noteq> magicSentinel then [CorruptionCall this] else []) @
             (if this |\<notin>| fmdom (activeCitizens s) \<and> this |\<notin>| fmdom (persistentCitizens s)
              then [CorruptionCall this] else [])"
proof -
  let ?r = "dtor_delete_hook this c s"
  have m: "fmlookup (memory (snd ?r)) this = Some c"
    using assms by (simp add: dtor_delete_hook_simps)
  have h: "sentinel c \<noteq> magicSentinel \<longrightarrow> corruptionCallback (snd ?r) this c \<noteq> Throw"
    using assms by (simp add: dtor_delete_hook_simps)
  have f: "fst ?r = Returned ()"
    using assms by (simp add: dtor_delete_hook_simps)
  show ?thesis
    using dtor_rest_calls [OF m h] f
    by (simp add: Citizen_dtor_live [OF assms(1)] end_lifetime_simps andThen_alt
        dtor_delete_hook_simps)
qed

lemma Citizen_dtor_tables:
  assumes "fmlookup (memory s) this = Some c"
    and "fst (Citizen_dtor this s) = Returned ()"
  shows "activeCitizens (snd (Citizen_dtor this s)) = fmdrop this (activeCitizens s)"
    and "persistentCitizens (snd (Citizen_dtor this s)) =
           (if this |\<in>| fmdom (activeCitizens s) then persistentCitizens s
            else fmdrop this (persistentCitizens s))"
    and "memory (snd (Citizen_dtor this s)) = fmdrop this (memory s)"
proof -
  let ?r = "dtor_delete_hook this c s"
  have m: "fmlookup (memory (snd ?r)) this = Some c"
    using assms by (simp add: dtor_delete_hook_simps)
  have f: "fst ?r = Returned ()" and g: "fst (dtor_rest this (snd ?r)) = Returned ()"
    using assms(2)
    by (auto simp: Citizen_dtor_live [OF assms(1)] end_lifetime_simps andThen_alt
        split: outcome.splits)
  note t = dtor_rest_tables [OF m g]
  show "activeCitizens (snd (Citizen_dtor this s)) = fmdrop this (activeCitizens s)"
    using f t(1)
    by (simp add: Citizen_dtor_live [OF assms(1)] end_lifetime_simps andThen_alt
        dtor_delete_hook_simps)
  show "persistentCitizens (snd (Citizen_dtor this s)) =
           (if this |\<in>| fmdom (activeCitizens s) then persistentCitizens s
            else fmdrop this (persistentCitizens s))"
    using f t(2)
    by (simp add: Citizen_dtor_live [OF assms(1)] end_lifetime_simps andThen_alt
        dtor_delete_hook_simps)
  show "memory (snd (Citizen_dtor this s)) = fmdrop this (memory s)"
    using f t(3)
    by (simp add: Citizen_dtor_live [OF assms(1)] end_lifetime_simps andThen_alt
        dtor_delete_hook_simps fmdrop_fmupd_same)
qed

lemma markPersistent_active:
  assumes "fmlookup (activeCitizens s) this = Some v"
  shows "markPersistent this s =
           s\<lparr>activeCitizens := fmdrop this (activeCitizens s),
             persistentCitizens := fmupd this v (persistentCitizens s)\<rparr>"
  using assms
  by (simp add: markPersistent_def index_def erase_def fmdomI)

lemma census_loop_filter:
  assumes "\<forall>a \<in> set xs. a |\<in>| fmdom mem"
  shows "census_loop mem m xs vec = Returned (vec @ filter (\<lambda>a. m \<le> idOf mem a) xs)"
  using assms
proof (induction xs arbitrary: vec)
  case Nil
  then show ?case by simp
next
  case (Cons a xs)
  then obtain c where c: "fmlookup mem a = Some c"
    by (auto simp: fmlookup_dom_iff)
  show ?case
    using Cons c by (simp add: idOf_def)
qed

lemma count_loop_filter:
  assumes "\<forall>a \<in> set xs. a |\<in>| fmdom mem"
    and "0 \<le> n"
    and "n + int (length (filter (\<lambda>a. m \<le> idOf mem a) xs)) \<le> INT_MAX"
  shows "count_loop mem m xs n =
           Returned (n + int (length (filter (\<lambda>a. m \<le> idOf mem a) xs)))"
  using assms
proof (induction xs arbitrary: n)
  case Nil
  then show ?case by simp
next
  case (Cons a xs)
  then obtain c where c: "fmlookup mem a = Some c"
    by (auto simp: fmlookup_dom_iff)
  have k: "idOf mem a = CitizenId c"
    using c by (simp add: idOf_def)
  show ?case
  proof (cases "m \<le> CitizenId c")
    case True
    then have "n \<noteq> INT_MAX" "0 \<le> n + 1"
      "n + 1 + int (length (filter (\<lambda>a. m \<le> idOf mem a) xs)) \<le> INT_MAX"
      using Cons.prems k by auto
    then show ?thesis
      using Cons.IH [of "n + 1"] Cons.prems(1) c k True by simp
  next
    case False
    then show ?thesis
      using Cons.IH [of n] Cons.prems c k by simp
  qed
qed

lemma length_sorted_list_of_fset: "length (sorted_list_of_fset A) = fcard A"
  by (simp add: sorted_list_of_fset.rep_eq fcard.rep_eq)

lemma census_eq:
  assumes "fmdom (activeCitizens s) |\<subseteq>| fmdom (memory s)"
  shows "census m s =
           Returned (sort_key (idOf (memory s))
             (filter (\<lambda>a. m \<le> idOf (memory s) a) (sorted_list_of_fset (fmdom (activeCitizens s)))))"
proof -
  have "\<forall>a \<in> set (sorted_list_of_fset (fmdom (activeCitizens s))). a |\<in>| fmdom (memory s)"
    using assms by auto
  then show ?thesis
    by (simp add: census_def census_loop_filter)
qed

lemma countCitizens_eq:
  assumes "fmdom (activeCitizens s) |\<subseteq>| fmdom (memory s)"
    and "m = 0 \<or> fcard (fmdom (activeCitizens s)) < 2 ^ 31"
  shows "countCitizens m s =
           Returned (length
             (filter (\<lambda>a. m \<le> idOf (memory s) a) (sorted_list_of_fset (fmdom (activeCitizens s)))))"
proof (cases "m = 0")
  case True
  then show ?thesis
    by (simp add: countCitizens_def length_sorted_list_of_fset)
next
  case False
  let ?keys = "sorted_list_of_fset (fmdom (activeCitizens s))"
  let ?F = "filter (\<lambda>a. m \<le> idOf (memory s) a) ?keys"
  have l: "\<forall>a \<in> set ?keys. a |\<in>| fmdom (memory s)"
    using assms(1) by auto
  have "length ?F \<le> length ?keys"
    by (rule length_filter_le)
  also have "\<dots> < 2 ^ 31"
    using assms(2) False by (simp add: length_sorted_list_of_fset)
  finally have b: "0 + int (length ?F) \<le> INT_MAX"
    by (simp add: INT_MAX_def)
  show ?thesis
    using False count_loop_filter [OF l _ b] by (simp add: countCitizens_def)
qed

lemma registry_inv_iff:
  "registry_inv s \<longleftrightarrow>
     (\<forall>a. (a |\<in>| fmdom (memory s) \<longrightarrow>
             (a |\<in>| fmdom (activeCitizens s)) \<noteq> (a |\<in>| fmdom (persistentCitizens s))) \<and>
          (a |\<notin>| fmdom (memory s) \<longrightarrow>
             a |\<notin>| fmdom (activeCitizens s) \<and> a |\<notin>| fmdom (persistentCitizens s)))"
  unfolding registry_inv_def by (auto simp: fset_eq_iff)

lemma Citizen_copy_ctor_live:
  "fmlookup (memory s) citizen = Some src \<Longrightarrow>
   Citizen_copy_ctor t this citizen s = Citizen_ctor t this (typeName src) s"
  by (simp add: Citizen_copy_ctor_def Citizen_ctor_def)

lemma Citizen_copy_ctor_dead:
  "fmlookup (memory s) citizen = None \<Longrightarrow> Citizen_copy_ctor t this citizen s = (Invalid, s)"
  by (simp add: Citizen_copy_ctor_def)

lemma registry_inv_ctor:
  assumes "registry_inv s" "this |\<notin>| fmdom (memory s)"
    "fst (Citizen_ctor t this ty s) = Returned ()"
  shows "registry_inv (snd (Citizen_ctor t this ty s))"
  using assms unfolding registry_inv_iff
  by (auto simp: Citizen_ctor_memory Citizen_ctor_frame addCitizen_simps split: if_splits)

lemma registry_inv_markPersistent:
  assumes "registry_inv s" "this |\<in>| fmdom (memory s)"
  shows "registry_inv (markPersistent this s)"
proof (cases "fmlookup (activeCitizens s) this")
  case None
  then have "this |\<notin>| fmdom (activeCitizens s)" by (simp add: fmdom_notI)
  then show ?thesis
    using assms unfolding registry_inv_iff
    by (auto simp: markPersistent_def index_def erase_def fmdom_notD fmdrop_fmupd_same fmdrop_idle)
next
  case (Some v)
  then show ?thesis
    using assms unfolding registry_inv_iff
    by (auto simp: markPersistent_active)
qed

lemma registry_inv_dtor:
  assumes "registry_inv s" "fst (Citizen_dtor this s) = Returned ()"
  shows "registry_inv (snd (Citizen_dtor this s))"
proof -
  obtain c where c: "fmlookup (memory s) this = Some c"
    using assms(2) by (cases "fmlookup (memory s) this") (auto simp: Citizen_dtor_def)
  show ?thesis
    using assms(1) unfolding registry_inv_iff
    by (auto simp: Citizen_dtor_tables [OF c assms(2)] split: if_splits)
qed

lemma distinct_sorted_list_of_fset [simp]: "distinct (sorted_list_of_fset A)"
  by (simp add: sorted_list_of_fset.rep_eq)

lemma registry_inv_dead:
  assumes "registry_inv s" "a |\<notin>| fmdom (memory s)"
  shows "a |\<notin>| fmdom (activeCitizens s) \<and> a |\<notin>| fmdom (persistentCitizens s)"
  using assms(2) assms(1) [unfolded registry_inv_iff, THEN spec, of a] by simp

section \<open>The claims\<close>

subsection \<open>C1: markPersistent on an identity that is not active\<close>

text \<open>
  C1 as the specification states it: calling \<open>markPersistent\<close> on an object whose
  identity is not in the active set changes neither set. The code has no such guard.
  A Citizen constructed inside a PersistentCitizenScope is in the persistent set with
  its ID and thread, \<open>(1, 5)\<close>; after \<open>markPersistent\<close> its entry is the
  value-initialised pair \<open>(0, 0)\<close> that \<^verbatim>\<open>_activeCitizens[this]\<close> created.
\<close>

theorem markPersistent_noop_counterexample:
  "7 |\<notin>| fmdom (activeCitizens s_persistent) \<and>
   fmlookup (persistentCitizens s_persistent) 7 = Some (1, 5) \<and>
   fmlookup (persistentCitizens (markPersistent 7 s_persistent)) 7 = Some (0, 0)"
  by code_simp

text \<open>
  C1, amended: calling \<open>markPersistent\<close> on an identity that is not in the active set
  raises nothing and leaves the active set as it was; the persistent set afterwards
  maps the identity to the pair \<open>(0, 0)\<close>, whether or not it had an entry before, and
  nothing else in the state changes.
\<close>

theorem markPersistent_not_active:
  assumes "this |\<notin>| fmdom (activeCitizens s)"
  shows "activeCitizens (markPersistent this s) = activeCitizens s \<and>
         persistentCitizens (markPersistent this s) = fmupd this (0, 0) (persistentCitizens s) \<and>
         markPersistent this s =
           s\<lparr>persistentCitizens := fmupd this (0, 0) (persistentCitizens s)\<rparr>"
  using assms
  by (simp add: markPersistent_def index_def erase_def fmdom_notD fmdrop_fmupd_same fmdrop_idle)

theorem markPersistent_not_active_witness:
  "7 |\<notin>| fmdom (activeCitizens s_persistent) \<and>
   activeCitizens (markPersistent 7 s_persistent) = activeCitizens s_persistent \<and>
   persistentCitizens (markPersistent 7 s_persistent) =
     fmupd 7 (0, 0) (persistentCitizens s_persistent)"
proof -
  have h: "7 |\<notin>| fmdom (activeCitizens s_persistent)"
    by code_simp
  show ?thesis
    using h markPersistent_not_active [OF h] by simp
qed

subsection \<open>C10: assignment\<close>

text \<open>
  C10: assigning one Citizen to another with \<^verbatim>\<open>operator=\<close> returns the target and
  leaves the whole state as it was: the target's ID, sentinel and type name, both
  tables, the per-thread counters and the callback log.
\<close>

theorem Citizen_assign_frame:
  "fst (Citizen_assign this rhs s) = this \<and>
   snd (Citizen_assign this rhs s) = s \<and>
   getId this (snd (Citizen_assign this rhs s)) = getId this s \<and>
   fmlookup (memory (snd (Citizen_assign this rhs s))) this = fmlookup (memory s) this \<and>
   activeCitizens (snd (Citizen_assign this rhs s)) = activeCitizens s \<and>
   persistentCitizens (snd (Citizen_assign this rhs s)) = persistentCitizens s"
  by (simp add: Citizen_assign_def)

subsection \<open>C4: consecutive IDs\<close>

text \<open>
  C4: on one thread, \<open>getNextMemId\<close> returns the ID that the next constructed object
  gets and leaves every thread's counter as it was; \<open>N\<close> constructions in a row get
  the IDs \<open>p, p + 1, \<dots>, p + N - 1\<close>, where \<open>p\<close> is what \<open>getNextMemId\<close> returned
  before the first. The sum is that of \<^verbatim>\<open>unsigned long\<close>; as long as it does not
  pass \<open>2^64\<close> the IDs are these natural numbers. A constructor returns only if the
  allocate callback does, hence the assumption.
\<close>

theorem sequential_ids:
  assumes "\<forall>cid. newCallback s cid \<noteq> Throw"
  shows "fst (getNextMemId t' (snd (getNextMemId t s))) = fst (getNextMemId t' s) \<and>
         fst (construct_seq t objs s) =
           Returned (map (\<lambda>i. fst (getNextMemId t s) + of_nat i) [0..<length objs]) \<and>
         (unat (fst (getNextMemId t s)) + length objs \<le> 2 ^ 64 \<longrightarrow>
            (\<exists>ids. fst (construct_seq t objs s) = Returned ids \<and>
               map unat ids =
                 [unat (fst (getNextMemId t s))..<unat (fst (getNextMemId t s)) + length objs]))"
proof -
  have a: "fst (getNextMemId t' (snd (getNextMemId t s))) = fst (getNextMemId t' s)"
    by (simp add: getNextMemId_def nextMemId_def split_def Let_def)
  have b: "fst (construct_seq t objs s) =
             Returned (map (\<lambda>i. fst (getNextMemId t s) + of_nat i) [0..<length objs])"
    using construct_seq_ids [OF assms] by (simp add: peek_simps)
  show ?thesis
    using a b unat_consecutive [of "fst (getNextMemId t s)" "length objs"] by simp
qed

theorem sequential_ids_witness:
  "(\<forall>cid. newCallback initial cid \<noteq> Throw) \<and>
   fst (getNextMemId 1 initial) = 1 \<and>
   fst (getNextMemId 1 (snd (getNextMemId 1 initial))) = 1 \<and>
   fst (construct_seq 1 [(10, ''Shoe''), (11, ''Shoe''), (12, ''MyClass'')] initial) =
     Returned [1, 2, 3]"
proof -
  have h: "\<forall>cid. newCallback initial cid \<noteq> Throw"
    by (simp add: initial_def defaultNewCallback_def)
  have p: "fst (getNextMemId 1 initial) = 1"
    by code_simp
  have m: "map (\<lambda>i. (1 :: memId) + of_nat i) [0..<length [(10 :: addr, ''Shoe''), (11, ''Shoe''), (12, ''MyClass'')]]
             = [1, 2, 3]"
    by code_simp
  show ?thesis
    using h p m
      sequential_ids [OF h, of 1 1 "[(10, ''Shoe''), (11, ''Shoe''), (12, ''MyClass'')]"]
    by simp
qed

subsection \<open>C5: the allocate callback\<close>

text \<open>
  C5: a construction calls the allocate callback if and only if the ID it has just
  allocated is the allocate watch ID \<open>newId\<close>, and the watch ID then grows by what
  the callback returned. With the watch at 15 and a callback that returns 5, the
  construction that gets ID 15 calls the callback once and leaves the watch at 20.
\<close>

theorem onAllocate_hook:
  "calls (snd (Citizen_ctor t this ty s)) =
     calls s @
       (if fst (getNextMemId t s) = newId s then [NewCall (fst (getNextMemId t s))] else []) \<and>
   newId (snd (Citizen_ctor t this ty s)) =
     (if fst (getNextMemId t s) = newId s
      then (case newCallback s (newId s) of Return d \<Rightarrow> newId s + d | Throw \<Rightarrow> newId s)
      else newId s) \<and>
   (fst (getNextMemId t s) = 15 \<and> newId s = 15 \<and> newCallback s 15 = Return 5 \<longrightarrow>
      calls (snd (Citizen_ctor t this ty s)) = calls s @ [NewCall 15] \<and>
      newId (snd (Citizen_ctor t this ty s)) = 20 \<and>
      getId this (snd (Citizen_ctor t this ty s)) = Returned 15)"
  by (auto simp: peek_simps Citizen_ctor_simps addCitizen_simps getId_def)

theorem onAllocate_hook_witness:
  "fst (getNextMemId 1 s_armed) = 15 \<and> newId s_armed = 15 \<and> newCallback s_armed 15 = Return 5 \<and>
   calls s_armed = [] \<and>
   calls (snd (Citizen_ctor 1 15 ''Shoe'' s_armed)) = [NewCall 15] \<and>
   newId (snd (Citizen_ctor 1 15 ''Shoe'' s_armed)) = 20 \<and>
   getId 15 (snd (Citizen_ctor 1 15 ''Shoe'' s_armed)) = Returned 15"
proof -
  have h: "fst (getNextMemId 1 s_armed) = 15 \<and> newId s_armed = 15 \<and>
           newCallback s_armed 15 = Return 5"
    by code_simp
  have c: "calls s_armed = []"
    by code_simp
  show ?thesis
    using h c onAllocate_hook [of 1 15 "''Shoe''" s_armed] by simp
qed

subsection \<open>C8: the persistence flag\<close>

text \<open>
  C8: while the calling thread's persistence flag is true, a registration goes to the
  persistent table and the active table is left alone. Constructing a
  PersistentCitizenScope sets the flag, destroying one clears it whatever it was; so
  after entering two scopes and leaving the inner one the flag is false, and the next
  registration goes to the active table although the outer scope is still open.
\<close>

theorem persistence_flag:
  "(fst (shouldPersistCitizens t s) \<longrightarrow>
      fmlookup (persistentCitizens (snd (addCitizen t c s))) c =
        Some (fst (getNextMemId t s), t) \<and>
      activeCitizens (snd (addCitizen t c s)) = activeCitizens s) \<and>
   fst (shouldPersistCitizens t (PersistentCitizenScope_ctor t s)) = True \<and>
   fst (shouldPersistCitizens t (PersistentCitizenScope_dtor t s)) = False \<and>
   fst (shouldPersistCitizens t
     (PersistentCitizenScope_dtor t
       (PersistentCitizenScope_ctor t (PersistentCitizenScope_ctor t s)))) = False \<and>
   activeCitizens (snd (addCitizen t c
     (PersistentCitizenScope_dtor t
       (PersistentCitizenScope_ctor t (PersistentCitizenScope_ctor t s))))) =
     fmupd c (fst (getNextMemId t s), t) (activeCitizens s) \<and>
   persistentCitizens (snd (addCitizen t c
     (PersistentCitizenScope_dtor t
       (PersistentCitizenScope_ctor t (PersistentCitizenScope_ctor t s))))) =
     persistentCitizens s"
  by (simp add: peek_simps addCitizen_simps scope_flag scope_frame)

theorem persistence_flag_witness:
  "fst (shouldPersistCitizens 5 (PersistentCitizenScope_ctor 5 initial)) \<and>
   fmlookup (persistentCitizens
     (snd (addCitizen 5 7 (PersistentCitizenScope_ctor 5 initial)))) 7 = Some (1, 5) \<and>
   activeCitizens (snd (addCitizen 5 7 (PersistentCitizenScope_ctor 5 initial))) = fmempty"
proof -
  have h: "fst (shouldPersistCitizens 5 (PersistentCitizenScope_ctor 5 initial))"
    by code_simp
  have p: "fst (getNextMemId 5 (PersistentCitizenScope_ctor 5 initial)) = 1"
    by code_simp
  have a: "activeCitizens (PersistentCitizenScope_ctor 5 initial) = fmempty"
    by (simp add: scope_frame initial_def)
  show ?thesis
    using h p a persistence_flag [of 5 "PersistentCitizenScope_ctor 5 initial" 7] by simp
qed

subsection \<open>C9: the per-object corruption check\<close>

text \<open>
  C9: right after a construction the check returns false and calls nothing. For a live
  object it calls the corruption callback, once and before it returns, exactly when the
  sentinel differs from the magic pattern; it then returns true, unless the callback
  throws (as the default callback does), in which case the exception leaves the check.
  Overwriting the sentinel of a live object with another value makes the check call
  the callback and return true.
\<close>

theorem hasBeenCorrupted_obj_spec:
  "(fst (Citizen_ctor t this ty s) = Returned () \<longrightarrow>
      hasBeenCorrupted_obj this (snd (Citizen_ctor t this ty s)) =
        (Returned False, snd (Citizen_ctor t this ty s))) \<and>
   (fmlookup (memory s) this = Some c \<longrightarrow>
      calls (snd (hasBeenCorrupted_obj this s)) =
        calls s @ (if sentinel c \<noteq> magicSentinel then [CorruptionCall this] else []) \<and>
      fst (hasBeenCorrupted_obj this s) =
        (if sentinel c = magicSentinel then Returned False
         else case corruptionCallback s this c of
                Return d \<Rightarrow> Returned True | Throw \<Rightarrow> Threw) \<and>
      (corruptionCallback s this c \<noteq> Throw \<longrightarrow>
         fst (hasBeenCorrupted_obj this s) = Returned (sentinel c \<noteq> magicSentinel))) \<and>
   (fmlookup (memory s) this = Some c \<and> v \<noteq> magicSentinel \<and>
    corruptionCallback s this (c\<lparr>sentinel := v\<rparr>) \<noteq> Throw \<longrightarrow>
      fst (hasBeenCorrupted_obj this
             (s\<lparr>memory := fmupd this (c\<lparr>sentinel := v\<rparr>) (memory s)\<rparr>)) = Returned True \<and>
      calls (snd (hasBeenCorrupted_obj this
             (s\<lparr>memory := fmupd this (c\<lparr>sentinel := v\<rparr>) (memory s)\<rparr>))) =
        calls s @ [CorruptionCall this])"
proof -
  have a: "hasBeenCorrupted_obj this (snd (Citizen_ctor t this ty s)) =
             (Returned False, snd (Citizen_ctor t this ty s))"
    if "fst (Citizen_ctor t this ty s) = Returned ()"
    using that by (simp add: hasBeenCorrupted_obj_def Citizen_ctor_memory)
  have b: "calls (snd (hasBeenCorrupted_obj this s)) =
             calls s @ (if sentinel c \<noteq> magicSentinel then [CorruptionCall this] else []) \<and>
           fst (hasBeenCorrupted_obj this s) =
             (if sentinel c = magicSentinel then Returned False
              else case corruptionCallback s this c of
                     Return d \<Rightarrow> Returned True | Throw \<Rightarrow> Threw) \<and>
           (corruptionCallback s this c \<noteq> Throw \<longrightarrow>
              fst (hasBeenCorrupted_obj this s) = Returned (sentinel c \<noteq> magicSentinel))"
    if "fmlookup (memory s) this = Some c"
    using that by (simp add: hasBeenCorrupted_obj_live split: hook_result.splits)
  have c: "fst (hasBeenCorrupted_obj this
             (s\<lparr>memory := fmupd this (c\<lparr>sentinel := v\<rparr>) (memory s)\<rparr>)) = Returned True \<and>
           calls (snd (hasBeenCorrupted_obj this
             (s\<lparr>memory := fmupd this (c\<lparr>sentinel := v\<rparr>) (memory s)\<rparr>))) =
             calls s @ [CorruptionCall this]"
    if "v \<noteq> magicSentinel" "corruptionCallback s this (c\<lparr>sentinel := v\<rparr>) \<noteq> Throw"
    using that
    by (simp add: hasBeenCorrupted_obj_live [where c = "c\<lparr>sentinel := v\<rparr>"]
        split: hook_result.splits)
  show ?thesis
    using a b c by blast
qed

theorem hasBeenCorrupted_obj_spec_witness:
  "fst (Citizen_ctor 1 13 ''Shoe'' s_tolerant) = Returned () \<and>
   fst (hasBeenCorrupted_obj 13 (snd (Citizen_ctor 1 13 ''Shoe'' s_tolerant))) = Returned False \<and>
   fmlookup (memory s_tolerant) 11 =
     Some \<lparr>sentinel = magicSentinel, CitizenId = 2, typeName = ''Shoe''\<rparr> \<and>
   corruptionCallback s_tolerant 11
     \<lparr>sentinel = 0, CitizenId = 2, typeName = ''Shoe''\<rparr> \<noteq> Throw \<and>
   fst (hasBeenCorrupted_obj 11 s_tolerant) = Returned False \<and>
   fst (hasBeenCorrupted_obj 11 s_scribbled) = Returned True \<and>
   calls (snd (hasBeenCorrupted_obj 11 s_scribbled)) = [CorruptionCall 11]"
proof -
  have h1: "fst (Citizen_ctor 1 13 ''Shoe'' s_tolerant) = Returned ()"
    by code_simp
  have h2: "fmlookup (memory s_tolerant) 11 =
              Some \<lparr>sentinel = magicSentinel, CitizenId = 2, typeName = ''Shoe''\<rparr>"
    by code_simp
  have h3: "corruptionCallback s_tolerant 11
              \<lparr>sentinel = 0, CitizenId = 2, typeName = ''Shoe''\<rparr> \<noteq> Throw"
    by code_simp
  have h4: "(0 :: 32 word) \<noteq> magicSentinel"
    by (simp add: magicSentinel_def)
  have c: "calls s_tolerant = []"
    by code_simp
  have s: "s_scribbled =
             s_tolerant\<lparr>memory :=
               fmupd 11 (\<lparr>sentinel = magicSentinel, CitizenId = 2, typeName = ''Shoe''\<rparr>
                           \<lparr>sentinel := 0\<rparr>) (memory s_tolerant)\<rparr>"
    by (simp add: s_scribbled_def)
  show ?thesis
    using h1 h2 h3 h4 c
      hasBeenCorrupted_obj_spec [where t = 1 and this = 13 and ty = "''Shoe''" and s = s_tolerant]
      hasBeenCorrupted_obj_spec [where this = 11 and s = s_tolerant and v = 0 and
        c = "\<lparr>sentinel = magicSentinel, CitizenId = 2, typeName = ''Shoe''\<rparr>"]
    unfolding s by simp
qed

subsection \<open>C6: the delete callback\<close>

text \<open>
  C6: the destructor of a live object is its first block followed by the rest. The
  first block calls the delete callback, with the object, if and only if the object's
  ID is the delete watch ID, and leaves both tables as they are: the object's entry is
  still there when the callback runs. The rest never calls the delete callback. So
  after the watch has been set to the object's ID, destroying the object calls the
  delete callback exactly once; destroying an object with another ID never calls it.
\<close>

theorem onDelete_hook:
  assumes "fmlookup (memory s) this = Some c"
  shows "deleteId (snd (setDeleteCallbackId (CitizenId c) s)) = CitizenId c \<and>
         filter is_DeleteCall
             (calls (snd (Citizen_dtor this (snd (setDeleteCallbackId (CitizenId c) s))))) =
           filter is_DeleteCall (calls s) @ [DeleteCall this] \<and>
         Citizen_dtor this s =
           end_lifetime this (andThen (dtor_delete_hook this c s) (\<lambda>u. dtor_rest this)) \<and>
         calls (snd (dtor_delete_hook this c s)) =
           calls s @ (if CitizenId c = deleteId s then [DeleteCall this] else []) \<and>
         activeCitizens (snd (dtor_delete_hook this c s)) = activeCitizens s \<and>
         persistentCitizens (snd (dtor_delete_hook this c s)) = persistentCitizens s \<and>
         filter is_DeleteCall (calls (snd (Citizen_dtor this s))) =
           filter is_DeleteCall (calls s) @
             (if CitizenId c = deleteId s then [DeleteCall this] else [])"
proof -
  let ?s0 = "snd (setDeleteCallbackId (CitizenId c) s)"
  have m: "fmlookup (memory ?s0) this = Some c"
    using assms by (simp add: setDeleteCallbackId_def)
  have "filter is_DeleteCall (calls (snd (Citizen_dtor this ?s0))) =
          filter is_DeleteCall (calls s) @ [DeleteCall this]"
    using Citizen_dtor_delete_calls [OF m] by (simp add: setDeleteCallbackId_def)
  then show ?thesis
    using Citizen_dtor_delete_calls [OF assms] Citizen_dtor_live [OF assms]
    by (simp add: dtor_delete_hook_simps setDeleteCallbackId_def)
qed

theorem onDelete_hook_witness:
  "fmlookup (memory s_abc) 11 =
     Some \<lparr>sentinel = magicSentinel, CitizenId = 2, typeName = ''Shoe''\<rparr> \<and>
   s_watch = snd (setDeleteCallbackId 2 s_abc) \<and>
   calls s_abc = [] \<and>
   filter is_DeleteCall (calls (snd (Citizen_dtor 11 s_watch))) = [DeleteCall 11] \<and>
   fmlookup (activeCitizens (snd (dtor_delete_hook 11
     \<lparr>sentinel = magicSentinel, CitizenId = 2, typeName = ''Shoe''\<rparr> s_watch))) 11 = Some (2, 1) \<and>
   fmlookup (activeCitizens (snd (Citizen_dtor 11 s_watch))) 11 = None \<and>
   calls (snd (Citizen_dtor 10 s_watch)) = []"
proof -
  have h: "fmlookup (memory s_abc) 11 =
             Some \<lparr>sentinel = magicSentinel, CitizenId = 2, typeName = ''Shoe''\<rparr>"
    by code_simp
  have c: "calls s_abc = []"
    by code_simp
  have w: "s_watch = snd (setDeleteCallbackId 2 s_abc)"
    by (simp add: s_watch_def)
  have a: "fmlookup (activeCitizens s_abc) 11 = Some (2, 1)"
    by code_simp
  have d: "fmlookup (activeCitizens (snd (Citizen_dtor 11 s_watch))) 11 = None"
    by code_simp
  have e: "calls (snd (Citizen_dtor 10 s_watch)) = []"
    by code_simp
  have k: "activeCitizens s_watch = activeCitizens s_abc"
    by (simp add: s_watch_def setDeleteCallbackId_def)
  show ?thesis
    using h c w a d e k
      onDelete_hook [OF h]
    by (simp add: dtor_delete_hook_simps)
qed

subsection \<open>C2: the structural check of the destructor\<close>

text \<open>
  C2 as the specification states it: the corruption callback is called when the count
  erased from the active table is not exactly 1. A Citizen in the persistent table
  is destroyed with a count of 0, and no callback is called.
\<close>

theorem dtor_structural_counterexample:
  "fst (erase (activeCitizens s_persistent) 7) \<noteq> 1 \<and>
   fst (Citizen_dtor 7 s_persistent) = Returned () \<and>
   calls (snd (Citizen_dtor 7 s_persistent)) = []"
  by code_simp

text \<open>
  C2, amended: when the destructor of a live object gets as far as its second block
  (no callback before it has thrown), it calls the corruption callback after the
  erasure if and only if the count erased from the active table is greater than 1, or
  is 0 while the count erased from the persistent table is not 1. A \<^verbatim>\<open>std::map\<close>
  never erases more than one entry, so this is the case exactly when the identity was
  in neither table. The call does not depend on the sentinel, whose own check adds a
  call of its own before.
\<close>

theorem dtor_structural_check:
  assumes "fmlookup (memory s) this = Some c"
    and "CitizenId c = deleteId s \<longrightarrow> deleteCallback s this c \<noteq> Throw"
    and "sentinel c \<noteq> magicSentinel \<longrightarrow> corruptionCallback s this c \<noteq> Throw"
  shows "calls (snd (Citizen_dtor this s)) =
           calls s @ (if CitizenId c = deleteId s then [DeleteCall this] else []) @
             (if sentinel c \<noteq> magicSentinel then [CorruptionCall this] else []) @
             (if 1 < fst (erase (activeCitizens s) this) \<or>
                 (fst (erase (activeCitizens s) this) = 0 \<and>
                  fst (erase (persistentCitizens s) this) \<noteq> 1)
              then [CorruptionCall this] else []) \<and>
         (1 < fst (erase (activeCitizens s) this) \<or>
            (fst (erase (activeCitizens s) this) = 0 \<and>
             fst (erase (persistentCitizens s) this) \<noteq> 1)) =
           (this |\<notin>| fmdom (activeCitizens s) \<and> this |\<notin>| fmdom (persistentCitizens s))"
proof -
  have e: "(1 < fst (erase (activeCitizens s) this) \<or>
            (fst (erase (activeCitizens s) this) = 0 \<and>
             fst (erase (persistentCitizens s) this) \<noteq> 1)) =
           (this |\<notin>| fmdom (activeCitizens s) \<and> this |\<notin>| fmdom (persistentCitizens s))"
    by (simp add: erase_def)
  show ?thesis
    unfolding e using Citizen_dtor_calls [OF assms] by simp
qed

theorem dtor_structural_check_witness:
  "fmlookup (memory s_worst) 11 = Some \<lparr>sentinel = 0, CitizenId = 2, typeName = ''Shoe''\<rparr> \<and>
   deleteId s_worst = 2 \<and>
   deleteCallback s_worst 11 \<lparr>sentinel = 0, CitizenId = 2, typeName = ''Shoe''\<rparr> \<noteq> Throw \<and>
   corruptionCallback s_worst 11 \<lparr>sentinel = 0, CitizenId = 2, typeName = ''Shoe''\<rparr> \<noteq> Throw \<and>
   fst (erase (activeCitizens s_worst) 11) = 0 \<and>
   fst (erase (persistentCitizens s_worst) 11) = 0 \<and>
   calls s_worst = [] \<and>
   calls (snd (Citizen_dtor 11 s_worst)) = [DeleteCall 11, CorruptionCall 11, CorruptionCall 11] \<and>
   fmlookup (memory s_dangling) 11 =
     Some \<lparr>sentinel = magicSentinel, CitizenId = 2, typeName = ''Shoe''\<rparr> \<and>
   deleteId s_dangling = 0 \<and>
   fst (erase (activeCitizens s_dangling) 11) = 0 \<and>
   fst (erase (persistentCitizens s_dangling) 11) = 0 \<and>
   calls s_dangling = [] \<and>
   calls (snd (Citizen_dtor 11 s_dangling)) = [CorruptionCall 11]"
proof -
  have w1: "fmlookup (memory s_worst) 11 =
              Some \<lparr>sentinel = 0, CitizenId = 2, typeName = ''Shoe''\<rparr>"
    by code_simp
  have w2: "deleteId s_worst = 2 \<and>
            deleteCallback s_worst 11 \<lparr>sentinel = 0, CitizenId = 2, typeName = ''Shoe''\<rparr> \<noteq> Throw \<and>
            corruptionCallback s_worst 11
              \<lparr>sentinel = 0, CitizenId = 2, typeName = ''Shoe''\<rparr> \<noteq> Throw"
    by code_simp
  have w3: "fst (erase (activeCitizens s_worst) 11) = 0 \<and>
            fst (erase (persistentCitizens s_worst) 11) = 0 \<and> calls s_worst = []"
    by code_simp
  have w4: "(0 :: 32 word) \<noteq> magicSentinel"
    by (simp add: magicSentinel_def)
  have d1: "fmlookup (memory s_dangling) 11 =
              Some \<lparr>sentinel = magicSentinel, CitizenId = 2, typeName = ''Shoe''\<rparr>"
    by code_simp
  have d2: "deleteId s_dangling = 0"
    by code_simp
  have d3: "fst (erase (activeCitizens s_dangling) 11) = 0 \<and>
            fst (erase (persistentCitizens s_dangling) 11) = 0 \<and> calls s_dangling = []"
    by code_simp
  show ?thesis
    using w1 w2 w3 w4 d1 d2 d3
      dtor_structural_check [of s_worst 11
        "\<lparr>sentinel = 0, CitizenId = 2, typeName = ''Shoe''\<rparr>"]
      dtor_structural_check [of s_dangling 11
        "\<lparr>sentinel = magicSentinel, CitizenId = 2, typeName = ''Shoe''\<rparr>"]
    by simp
qed

subsection \<open>C3: census and count\<close>

text \<open>
  C3: when every key of the active table is a live Citizen, \<open>census minId\<close> returns
  a list without repetitions that holds exactly the keys of the active table whose
  object has an ID, as \<open>getId\<close> reads it, of at least \<open>minId\<close>; the IDs that
  \<open>getId\<close> reads along the list are ascending; with \<open>minId = 0\<close> the list holds all
  the keys of the active table; a key that is only in the persistent table is never
  in the list; and \<open>countCitizens minId\<close> returns the length of the list. For
  \<open>minId \<noteq> 0\<close> the count runs in an \<^verbatim>\<open>int\<close>, hence the bound on the size of the
  active table.
\<close>

theorem census_spec:
  assumes "fmdom (activeCitizens s) |\<subseteq>| fmdom (memory s)"
    and "minId = 0 \<or> fcard (fmdom (activeCitizens s)) < 2 ^ 31"
  shows "\<exists>vec ids. census minId s = Returned vec \<and>
           distinct vec \<and>
           map (\<lambda>a. getId a s) vec = map Returned ids \<and>
           sorted ids \<and>
           set vec = {a. a |\<in>| fmdom (activeCitizens s) \<and>
                         (\<exists>i. getId a s = Returned i \<and> minId \<le> i)} \<and>
           (minId = 0 \<longrightarrow> set vec = fset (fmdom (activeCitizens s))) \<and>
           (\<forall>a. a |\<notin>| fmdom (activeCitizens s) \<longrightarrow> a \<notin> set vec) \<and>
           countCitizens minId s = Returned (length vec)"
proof -
  let ?keys = "sorted_list_of_fset (fmdom (activeCitizens s))"
  let ?F = "filter (\<lambda>a. minId \<le> idOf (memory s) a) ?keys"
  let ?vec = "sort_key (idOf (memory s)) ?F"
  let ?ids = "map (idOf (memory s)) ?vec"
  have live: "\<exists>c. fmlookup (memory s) a = Some c" if "a |\<in>| fmdom (activeCitizens s)" for a
  proof -
    have "a |\<in>| fmdom (memory s)"
      using that assms(1) by (rule fsubsetD [rotated])
    then show ?thesis
      by (simp add: fmlookup_dom_iff)
  qed
  have i: "getId a s = Returned (idOf (memory s) a)"
    if "a |\<in>| fmdom (activeCitizens s)" for a
    using live [OF that] by (auto simp: getId_def idOf_def)
  have g: "(\<exists>i. getId a s = Returned i \<and> minId \<le> i) = (minId \<le> idOf (memory s) a)"
    if "a |\<in>| fmdom (activeCitizens s)" for a
    using i [OF that] by simp
  have 1: "census minId s = Returned ?vec"
    by (rule census_eq [OF assms(1)])
  have 2: "distinct ?vec"
    by simp
  have 3: "map (\<lambda>a. getId a s) ?vec = map Returned ?ids"
    using i by simp
  have 4: "sorted ?ids"
    by (rule sorted_sort_key)
  have 5: "set ?vec = {a. a |\<in>| fmdom (activeCitizens s) \<and>
                          (\<exists>i. getId a s = Returned i \<and> minId \<le> i)}"
    using g by auto
  have 6: "set ?vec = fset (fmdom (activeCitizens s))" if "minId = 0"
    using that by simp
  have 7: "\<forall>a. a |\<notin>| fmdom (activeCitizens s) \<longrightarrow> a \<notin> set ?vec"
    by simp
  have 8: "countCitizens minId s = Returned (length ?vec)"
    by (simp add: countCitizens_eq [OF assms])
  show ?thesis
  proof (intro exI conjI)
    show "census minId s = Returned ?vec" by (fact 1)
    show "distinct ?vec" by (fact 2)
    show "map (\<lambda>a. getId a s) ?vec = map Returned ?ids" by (fact 3)
    show "sorted ?ids" by (fact 4)
    show "set ?vec = {a. a |\<in>| fmdom (activeCitizens s) \<and>
                         (\<exists>i. getId a s = Returned i \<and> minId \<le> i)}" by (fact 5)
    show "minId = 0 \<longrightarrow> set ?vec = fset (fmdom (activeCitizens s))"
      by (rule impI) (rule 6)
    show "\<forall>a. a |\<notin>| fmdom (activeCitizens s) \<longrightarrow> a \<notin> set ?vec" by (fact 7)
    show "countCitizens minId s = Returned (length ?vec)" by (fact 8)
  qed
qed

theorem census_spec_witness:
  "fmdom (activeCitizens s_rev) |\<subseteq>| fmdom (memory s_rev) \<and>
   fcard (fmdom (activeCitizens s_rev)) < 2 ^ 31 \<and>
   map (\<lambda>a. getId a s_rev) [10, 11, 12] = [Returned 3, Returned 2, Returned 1] \<and>
   census 0 s_rev = Returned [12, 11, 10] \<and>
   countCitizens 0 s_rev = Returned 3 \<and>
   census 2 s_rev = Returned [11, 10] \<and>
   countCitizens 2 s_rev = Returned 2 \<and>
   fmdom (activeCitizens s_ac) |\<subseteq>| fmdom (memory s_ac) \<and>
   fcard (fmdom (activeCitizens s_ac)) < 2 ^ 31 \<and>
   census 0 s_ac = Returned [10, 12] \<and>
   countCitizens 0 s_ac = Returned 2 \<and>
   census 3 s_ac = Returned [12] \<and>
   countCitizens 3 s_ac = Returned 1"
proof -
  have h: "fmdom (activeCitizens s_rev) |\<subseteq>| fmdom (memory s_rev)"
    by code_simp
  have "fcard (fmdom (activeCitizens s_rev)) = 3"
    by code_simp
  then have n: "fcard (fmdom (activeCitizens s_rev)) < 2 ^ 31"
    by simp
  have i: "map (\<lambda>a. getId a s_rev) [10, 11, 12] = [Returned 3, Returned 2, Returned 1]"
    by code_simp
  have a: "census 0 s_rev = Returned [12, 11, 10]"
    by code_simp
  have b: "census 2 s_rev = Returned [11, 10]"
    by code_simp
  have c0: "countCitizens 0 s_rev = Returned 3"
    using census_spec [OF h disjI2 [OF n], of 0] a by auto
  have c2: "countCitizens 2 s_rev = Returned 2"
    using census_spec [OF h disjI2 [OF n], of 2] b by auto
  have h': "fmdom (activeCitizens s_ac) |\<subseteq>| fmdom (memory s_ac)"
    by code_simp
  have "fcard (fmdom (activeCitizens s_ac)) = 2"
    by code_simp
  then have n': "fcard (fmdom (activeCitizens s_ac)) < 2 ^ 31"
    by simp
  have a': "census 0 s_ac = Returned [10, 12]"
    by code_simp
  have b': "census 3 s_ac = Returned [12]"
    by code_simp
  have c0': "countCitizens 0 s_ac = Returned 2"
    using census_spec [OF h' disjI2 [OF n'], of 0] a' by auto
  have c3': "countCitizens 3 s_ac = Returned 1"
    using census_spec [OF h' disjI2 [OF n'], of 3] b' by auto
  show ?thesis
    using h n i a b c0 c2 h' n' a' b' c0' c3' by simp
qed

subsection \<open>C7: the registry invariant\<close>

text \<open>
  C7 as the specification states it: every operation keeps each identity in exactly
  one table while its object lives and in neither table otherwise. \<open>addCitizen\<close>
  inserts the identity before it calls the allocate callback, and nothing takes the
  entry out again when the callback throws. With the allocate watch at the ID that
  comes next and a callback that throws, the constructor is left by the exception: no
  object has come to life at address 10, and 10 is a key of the active table.
\<close>

theorem registry_inv_counterexample:
  "registry_inv s_throw \<and>
   10 |\<notin>| fmdom (memory s_throw) \<and>
   fst (Citizen_ctor 1 10 ''Shoe'' s_throw) = Threw \<and>
   10 |\<notin>| fmdom (memory (snd (Citizen_ctor 1 10 ''Shoe'' s_throw))) \<and>
   fmlookup (activeCitizens (snd (Citizen_ctor 1 10 ''Shoe'' s_throw))) 10 = Some (1, 1) \<and>
   \<not> registry_inv (snd (Citizen_ctor 1 10 ''Shoe'' s_throw))"
  by code_simp

text \<open>
  C7, amended: \<open>registry_inv\<close> says that every live Citizen is a key of exactly one of
  the two tables and that an address with no live Citizen (not yet constructed, or
  already destroyed) is a key of neither. It holds initially, and each operation that
  changes the tables and returns keeps it: a constructor that returns, for an address
  that holds no live Citizen; \<open>markPersistent\<close> on a live Citizen; a destructor that
  returns, after which the object is a key of neither table.
\<close>

theorem registry_inv_preserved:
  assumes "registry_inv s"
  shows "(\<forall>a. (a |\<in>| fmdom (memory s) \<longrightarrow>
                 (a |\<in>| fmdom (activeCitizens s)) \<noteq> (a |\<in>| fmdom (persistentCitizens s))) \<and>
              (a |\<notin>| fmdom (memory s) \<longrightarrow>
                 a |\<notin>| fmdom (activeCitizens s) \<and> a |\<notin>| fmdom (persistentCitizens s))) \<and>
         registry_inv initial \<and>
         (this |\<notin>| fmdom (memory s) \<and> fst (Citizen_ctor t this ty s) = Returned () \<longrightarrow>
            registry_inv (snd (Citizen_ctor t this ty s))) \<and>
         (this |\<notin>| fmdom (memory s) \<and> fst (Citizen_copy_ctor t this citizen s) = Returned () \<longrightarrow>
            registry_inv (snd (Citizen_copy_ctor t this citizen s))) \<and>
         (p |\<in>| fmdom (memory s) \<longrightarrow> registry_inv (markPersistent p s)) \<and>
         (fst (Citizen_dtor d s) = Returned () \<longrightarrow>
            registry_inv (snd (Citizen_dtor d s)) \<and>
            d |\<notin>| fmdom (activeCitizens (snd (Citizen_dtor d s))) \<and>
            d |\<notin>| fmdom (persistentCitizens (snd (Citizen_dtor d s))))"
proof -
  have m: "\<forall>a. (a |\<in>| fmdom (memory s) \<longrightarrow>
                 (a |\<in>| fmdom (activeCitizens s)) \<noteq> (a |\<in>| fmdom (persistentCitizens s))) \<and>
              (a |\<notin>| fmdom (memory s) \<longrightarrow>
                 a |\<notin>| fmdom (activeCitizens s) \<and> a |\<notin>| fmdom (persistentCitizens s))"
    using assms by (simp only: registry_inv_iff)
  have 0: "registry_inv initial"
    by (simp add: registry_inv_def initial_def)
  have 1: "registry_inv (snd (Citizen_copy_ctor t this citizen s))"
    if "this |\<notin>| fmdom (memory s)" "fst (Citizen_copy_ctor t this citizen s) = Returned ()"
  proof (cases "fmlookup (memory s) citizen")
    case None
    then show ?thesis using that by (simp add: Citizen_copy_ctor_dead)
  next
    case (Some src)
    then show ?thesis
      using that assms by (simp add: Citizen_copy_ctor_live registry_inv_ctor)
  qed
  have 2: "d |\<notin>| fmdom (activeCitizens (snd (Citizen_dtor d s))) \<and>
           d |\<notin>| fmdom (persistentCitizens (snd (Citizen_dtor d s)))"
    if r: "fst (Citizen_dtor d s) = Returned ()"
  proof -
    obtain c where c: "fmlookup (memory s) d = Some c"
      using r by (cases "fmlookup (memory s) d") (auto simp: Citizen_dtor_def)
    have "d |\<notin>| fmdom (memory (snd (Citizen_dtor d s)))"
      by (simp add: Citizen_dtor_tables(3) [OF c r])
    then show ?thesis
      using registry_inv_dtor [OF assms r] by (simp add: registry_inv_dead)
  qed
  have 3: "registry_inv (snd (Citizen_ctor t this ty s))"
    if "this |\<notin>| fmdom (memory s)" "fst (Citizen_ctor t this ty s) = Returned ()"
    using that by (rule registry_inv_ctor [OF assms])
  have 4: "registry_inv (markPersistent p s)" if "p |\<in>| fmdom (memory s)"
    using that by (rule registry_inv_markPersistent [OF assms])
  have 5: "registry_inv (snd (Citizen_dtor d s))" if "fst (Citizen_dtor d s) = Returned ()"
    using that by (rule registry_inv_dtor [OF assms])
  show ?thesis
    using m 0 1 2 3 4 5 by simp
qed

theorem registry_inv_preserved_witness:
  "registry_inv s_abc \<and>
   13 |\<notin>| fmdom (memory s_abc) \<and>
   fst (Citizen_ctor 1 13 ''Shoe'' s_abc) = Returned () \<and>
   registry_inv (snd (Citizen_ctor 1 13 ''Shoe'' s_abc)) \<and>
   fst (Citizen_copy_ctor 1 13 10 s_abc) = Returned () \<and>
   registry_inv (snd (Citizen_copy_ctor 1 13 10 s_abc)) \<and>
   10 |\<in>| fmdom (memory s_abc) \<and>
   registry_inv (markPersistent 10 s_abc) \<and>
   fst (Citizen_dtor 11 s_abc) = Returned () \<and>
   registry_inv (snd (Citizen_dtor 11 s_abc))"
proof -
  have h: "registry_inv s_abc"
    by code_simp
  have a: "13 |\<notin>| fmdom (memory s_abc) \<and> fst (Citizen_ctor 1 13 ''Shoe'' s_abc) = Returned () \<and>
           fst (Citizen_copy_ctor 1 13 10 s_abc) = Returned () \<and>
           10 |\<in>| fmdom (memory s_abc) \<and> fst (Citizen_dtor 11 s_abc) = Returned ()"
    by code_simp
  show ?thesis
    using h a
      registry_inv_preserved [OF h, where this = 13 and t = 1 and ty = "''Shoe''" and
        citizen = 10 and p = 10 and d = 11]
    by simp
qed

end
